theory Spec2Isabelle
  imports Complex_Main
begin
section \<open>Numbers and the value types of the rendering library\<close>
text \<open>
  The kernel \<^verbatim>\<open>MinimumBoundingRectangle\<close> computes with JavaScript numbers. They are
  modelled as real numbers: rounding, NaN and signed zeros are left out, and the two
  infinities appear only where the source seeds an accumulator with them
  (\<^verbatim>\<open>let minY = Infinity\<close>), as the type \<open>xreal\<close>. \<^verbatim>\<open>Vector2\<close>, \<^verbatim>\<open>Vector3\<close>,
  \<^verbatim>\<open>Matrix4\<close> and \<^verbatim>\<open>Box3\<close> belong to the three.js library; the methods the kernel
  calls are written out here with the library's documented meaning.
\<close>
datatype vec2 = Vector2 (vx: real) (vy: real)
datatype vec3 = Vector3 (v3x: real) (v3y: real) (v3z: real)
text \<open>A \<^verbatim>\<open>Matrix4\<close> is its array \<^verbatim>\<open>elements\<close> of 16 numbers, column after column.\<close>
type_synonym matrix4 = "real list"
datatype xreal = MInf | Fin real | PInf
text \<open>\<^verbatim>\<open>Math.min(acc, v)\<close> and \<^verbatim>\<open>Math.max(acc, v)\<close> for an accumulator and a finite number.\<close>
fun xmin :: "xreal \<Rightarrow> real \<Rightarrow> xreal" where
  "xmin PInf v = Fin v"
| "xmin (Fin a) v = Fin (min a v)"
| "xmin MInf v = MInf"
fun xmax :: "xreal \<Rightarrow> real \<Rightarrow> xreal" where
  "xmax MInf v = Fin v"
| "xmax (Fin a) v = Fin (max a v)"
| "xmax PInf v = PInf"
text \<open>\<^verbatim>\<open>area < minArea\<close> for a finite area and an accumulator.\<close>
fun xless :: "real \<Rightarrow> xreal \<Rightarrow> bool" where
  "xless v PInf = True"
| "xless v (Fin a) = (v < a)"
| "xless v MInf = False"
text \<open>
  The number held by an accumulator that has left its seed. The kernel does arithmetic
  on an accumulator only after a loop over at least one element, where the accumulator
  is finite (lemmas \<open>getExtremeProjections_Fin\<close> and \<open>dedup_loop_Fin\<close> below).
\<close>
fun fin :: "xreal \<Rightarrow> real" where
  "fin (Fin a) = a"
| "fin _ = undefined"
text \<open>\<^verbatim>\<open>Vector2.dot\<close>, \<^verbatim>\<open>Vector2.length\<close>, \<^verbatim>\<open>Vector2.distanceTo\<close>.\<close>
definition dot :: "vec2 \<Rightarrow> vec2 \<Rightarrow> real" where
  "dot a b = vx a * vx b + vy a * vy b"
definition vlength :: "vec2 \<Rightarrow> real" where
  "vlength v = sqrt (vx v * vx v + vy v * vy v)"
definition distanceTo :: "vec2 \<Rightarrow> vec2 \<Rightarrow> real" where
  "distanceTo a b =
     sqrt ((vx a - vx b) * (vx a - vx b) + (vy a - vy b) * (vy a - vy b))"
text \<open>
  \<^verbatim>\<open>Vector2.normalize\<close> is \<^verbatim>\<open>this.divideScalar(this.length() || 1)\<close>, and
  \<^verbatim>\<open>divideScalar(s)\<close> multiplies by \<^verbatim>\<open>1 / s\<close>: the zero vector stays the zero vector.
\<close>
definition normalize :: "vec2 \<Rightarrow> vec2" where
  "normalize v =
     (let l = vlength v; s = (if l = 0 then 1 else l)
      in Vector2 (vx v * (1 / s)) (vy v * (1 / s)))"
text \<open>\<^verbatim>\<open>Math.atan2(y, x)\<close> on real numbers, with values in \<open>(-\<pi>, \<pi>]\<close>.\<close>
definition atan2 :: "real \<Rightarrow> real \<Rightarrow> real" where
  "atan2 b a =
     (if 0 < a then arctan (b / a)
      else if a < 0 then (if 0 \<le> b then arctan (b / a) + pi else arctan (b / a) - pi)
      else if 0 < b then pi / 2
      else if b < 0 then - (pi / 2)
      else 0)"
text \<open>\<^verbatim>\<open>Math.round\<close> rounds to the nearest integer, a half upwards: \<open>\<lfloor>x + 1/2\<rfloor>\<close>.\<close>
definition math_round :: "real \<Rightarrow> int" where
  "math_round v = \<lfloor>v + 1 / 2\<rfloor>"
text \<open>
  \<^verbatim>\<open>Matrix4.makeRotationY(theta)\<close> overwrites all 16 elements; in row order the matrix
  is \<open>(c, 0, s, 0), (0, 1, 0, 0), (-s, 0, c, 0), (0, 0, 0, 1)\<close>.
\<close>
definition makeRotationY :: "real \<Rightarrow> matrix4" where
  "makeRotationY theta =
     (let c = cos theta; s = sin theta
      in [c, 0, - s, 0,  0, 1, 0, 0,  s, 0, c, 0,  0, 0, 0, 1])"
definition identity4 :: matrix4 where
  "identity4 = [1, 0, 0, 0,  0, 1, 0, 0,  0, 0, 1, 0,  0, 0, 0, 1]"
text \<open>\<^verbatim>\<open>Vector3.applyMatrix4\<close>, with its perspective divide, and \<^verbatim>\<open>Vector3.add\<close>.\<close>
definition applyMatrix4 :: "vec3 \<Rightarrow> matrix4 \<Rightarrow> vec3" where
  "applyMatrix4 v e =
     (let x = v3x v; y = v3y v; z = v3z v;
          w = 1 / (e ! 3 * x + e ! 7 * y + e ! 11 * z + e ! 15)
      in Vector3 ((e ! 0 * x + e ! 4 * y + e ! 8 * z + e ! 12) * w)
                 ((e ! 1 * x + e ! 5 * y + e ! 9 * z + e ! 13) * w)
                 ((e ! 2 * x + e ! 6 * y + e ! 10 * z + e ! 14) * w))"
definition add3 :: "vec3 \<Rightarrow> vec3 \<Rightarrow> vec3" where
  "add3 a b = Vector3 (v3x a + v3x b) (v3y a + v3y b) (v3z a + v3z b)"
text \<open>
  A \<^verbatim>\<open>Box3\<close>: \<^verbatim>\<open>makeEmpty\<close> sets \<^verbatim>\<open>min\<close> to \<open>+\<infinity>\<close> and \<^verbatim>\<open>max\<close> to \<open>-\<infinity>\<close> in every
  coordinate, \<^verbatim>\<open>expandByPoint\<close> takes the minimum and the maximum with a point in every
  coordinate, and \<^verbatim>\<open>setFromPoints\<close> empties the box and expands it by each point in turn.
\<close>
record box3 =
  bmin :: "xreal \<times> xreal \<times> xreal"
  bmax :: "xreal \<times> xreal \<times> xreal"
definition makeEmpty :: "box3 \<Rightarrow> box3" where
  "makeEmpty b = b\<lparr>bmin := (PInf, PInf, PInf), bmax := (MInf, MInf, MInf)\<rparr>"
definition expandByPoint :: "box3 \<Rightarrow> vec3 \<Rightarrow> box3" where
  "expandByPoint b p =
     (case (bmin b, bmax b) of
        ((x0, y0, z0), (x1, y1, z1)) \<Rightarrow>
          b\<lparr>bmin := (xmin x0 (v3x p), xmin y0 (v3y p), xmin z0 (v3z p)),
            bmax := (xmax x1 (v3x p), xmax y1 (v3y p), xmax z1 (v3z p))\<rparr>)"
definition setFromPoints :: "box3 \<Rightarrow> vec3 list \<Rightarrow> box3" where
  "setFromPoints b ps = foldl expandByPoint (makeEmpty b) ps"
section \<open>The kernel\<close>
subsection \<open>State of a \<^verbatim>\<open>MinimumBoundingRectangle\<close>\<close>
record mbr =
  center :: vec3
  halfSizes :: vec3
  rotation :: matrix4
text \<open>The constructor: two zero vectors and the identity matrix.\<close>
definition new_mbr :: mbr where
  "new_mbr = \<lparr>center = Vector3 0 0 0, halfSizes = Vector3 0 0 0, rotation = identity4\<rparr>"
text \<open>
  The only place where the source could throw: reading a coordinate of a stack
  element that is \<^verbatim>\<open>undefined\<close>.
\<close>
datatype error = TypeError
subsection \<open>\<^verbatim>\<open>crossProduct\<close> and \<^verbatim>\<open>grahamScan\<close>\<close>
definition crossProduct :: "vec2 \<Rightarrow> vec2 \<Rightarrow> vec2 \<Rightarrow> real" where
  "crossProduct p1 p2 p3 =
     (vx p2 - vx p1) * (vy p3 - vy p1) - (vy p2 - vy p1) * (vx p3 - vx p1)"
text \<open>
  The search for the lowest point, leftmost among the lowest: the loop over
  \<^verbatim>\<open>i = 1 .. points.length - 1\<close> with the pair \<^verbatim>\<open>(bottomPoint, bottomIndex)\<close>.
\<close>
fun find_bottom :: "vec2 list \<Rightarrow> nat \<Rightarrow> vec2 \<times> nat \<Rightarrow> vec2 \<times> nat" where
  "find_bottom [] i acc = acc"
| "find_bottom (p # ps) i (bottomPoint, bottomIndex) =
     (if vy p < vy bottomPoint \<or> (vy p = vy bottomPoint \<and> vx p < vx bottomPoint)
      then find_bottom ps (Suc i) (p, i)
      else find_bottom ps (Suc i) (bottomPoint, bottomIndex))"
text \<open>\<^verbatim>\<open>points.filter((_, i) => i !== bottomIndex)\<close>.\<close>
definition filter_index :: "vec2 list \<Rightarrow> nat \<Rightarrow> vec2 list" where
  "filter_index points bottomIndex =
     map fst (filter (\<lambda>(p, i). i \<noteq> bottomIndex) (zip points [0..<length points]))"
text \<open>The comparison function handed to \<^verbatim>\<open>sort\<close>.\<close>
definition compare_angle :: "vec2 \<Rightarrow> vec2 \<Rightarrow> vec2 \<Rightarrow> real" where
  "compare_angle bottomPoint a b =
     (let angleA = atan2 (vy a - vy bottomPoint) (vx a - vx bottomPoint);
          angleB = atan2 (vy b - vy bottomPoint) (vx b - vx bottomPoint)
      in if \<bar>angleA - angleB\<bar> < 1 / 10 ^ 10
         then distanceTo a bottomPoint - distanceTo b bottomPoint
         else angleA - angleB)"
text \<open>
  \<^verbatim>\<open>Array.prototype.sort\<close> with a comparison function is stable: an element moves in
  front of another only when the comparison is strictly positive for the pair the other
  way round. It is modelled as the stable insertion sort. For a comparison function that
  orders the elements consistently this is the result of every conforming engine; for
  two elements it is so for every comparison function that is antisymmetric in sign.
\<close>
fun insort_cmp :: "('a \<Rightarrow> 'a \<Rightarrow> real) \<Rightarrow> 'a \<Rightarrow> 'a list \<Rightarrow> 'a list" where
  "insort_cmp c a [] = [a]"
| "insort_cmp c a (b # bs) = (if c a b \<le> 0 then a # b # bs else b # insort_cmp c a bs)"
definition sort_cmp :: "('a \<Rightarrow> 'a \<Rightarrow> real) \<Rightarrow> 'a list \<Rightarrow> 'a list" where
  "sort_cmp c xs = foldr (insort_cmp c) xs []"
text \<open>
  The inner \<^verbatim>\<open>while\<close> loop of the scan; the stack is kept in array order, its top is
  the last element.
\<close>
function pop_while :: "vec2 list \<Rightarrow> vec2 \<Rightarrow> vec2 list" where
  "pop_while stack p =
     (if length stack \<ge> 2 \<and>
         crossProduct (stack ! (length stack - 2)) (stack ! (length stack - 1)) p \<le> 0
      then pop_while (butlast stack) p
      else stack)"
  by pat_completeness auto
termination
  by (relation "measure (\<lambda>(stack, p). length stack)") auto
declare pop_while.simps [simp del]
definition scan_step :: "vec2 list \<Rightarrow> vec2 \<Rightarrow> vec2 list" where
  "scan_step stack p = pop_while stack p @ [p]"
text \<open>
  \<^verbatim>\<open>grahamScan\<close>. The stack is seeded with \<^verbatim>\<open>sortedPoints[0]\<close> and
  \<^verbatim>\<open>sortedPoints[1]\<close>; were the second one missing, the stack would hold
  \<^verbatim>\<open>undefined\<close> and the first read of its coordinates would throw, which the model
  reports at the seed.
\<close>
definition grahamScan :: "vec2 list \<Rightarrow> error + vec2 list" where
  "grahamScan points =
     (if length points < 3 then Inr points
      else
        let (bottomPoint, bottomIndex) = find_bottom (tl points) 1 (points ! 0, 0);
            sortedPoints =
              bottomPoint # sort_cmp (compare_angle bottomPoint) (filter_index points bottomIndex)
        in case sortedPoints of
             s0 # s1 # rest \<Rightarrow> Inr (foldl scan_step [s0, s1] rest)
           | _ \<Rightarrow> Inl TypeError)"
subsection \<open>The rotating-calipers search\<close>
record rect =
  rcenter :: vec2
  rwidth :: real
  rheight :: real
  rangle :: real
definition zero_rect :: rect where
  "zero_rect = \<lparr>rcenter = Vector2 0 0, rwidth = 0, rheight = 0, rangle = 0\<rparr>"
definition getExtremeProjections :: "vec2 list \<Rightarrow> vec2 \<Rightarrow> xreal \<times> xreal" where
  "getExtremeProjections points direction =
     foldl (\<lambda>(minProj, maxProj) point.
              let proj = dot point direction in (xmin minProj proj, xmax maxProj proj))
           (PInf, MInf) points"
text \<open>One round of the outer loop of \<^verbatim>\<open>getUniqueEdgeDirections\<close>, for the index \<open>i\<close>.\<close>
definition edge_step :: "vec2 list \<Rightarrow> vec2 list \<Rightarrow> nat \<Rightarrow> vec2 list" where
  "edge_step hullv directions i =
     (let p1 = hullv ! i;
          p2 = hullv ! ((i + 1) mod length hullv);
          edge = normalize (Vector2 (vx p2 - vx p1) (vy p2 - vy p1))
      in if list_ex (\<lambda>dir. \<bar>dot edge dir - 1\<bar> < 1 / 10 ^ 10) directions
         then directions
         else directions @ [edge])"
definition getUniqueEdgeDirections :: "vec2 list \<Rightarrow> vec2 list" where
  "getUniqueEdgeDirections hullv = foldl (edge_step hullv) [] [0..<length hullv]"
text \<open>
  The rectangle that the body of the search loop computes for one direction: the
  supporting lines along the direction and its perpendicular, and the rectangle they span.
\<close>
definition candidate :: "vec2 list \<Rightarrow> vec2 \<Rightarrow> rect" where
  "candidate hullv direction =
     (let perpendicular = Vector2 (- vy direction) (vx direction);
          (l, r) = getExtremeProjections hullv direction;
          (b, t) = getExtremeProjections hullv perpendicular;
          left = fin l; right = fin r; bottom = fin b; top = fin t;
          width = right - left;
          height = top - bottom
      in \<lparr>rcenter =
            Vector2 ((left + right) * vx direction / 2 + (bottom + top) * vx perpendicular / 2)
                    ((left + right) * vy direction / 2 + (bottom + top) * vy perpendicular / 2),
          rwidth = width, rheight = height,
          rangle = atan2 (vy direction) (vx direction)\<rparr>)"
definition rarea :: "rect \<Rightarrow> real" where
  "rarea r = rwidth r * rheight r"
text \<open>One round of the search loop, on the pair \<^verbatim>\<open>(minArea, bestRect)\<close>.\<close>
definition caliper_step :: "vec2 list \<Rightarrow> xreal \<times> rect option \<Rightarrow> vec2 \<Rightarrow> xreal \<times> rect option" where
  "caliper_step hullv acc direction =
     (let c = candidate hullv direction; area = rarea c
      in if xless area (fst acc) then (Fin area, Some c) else acc)"
definition enhancedRotatingCalipers :: "vec2 list \<Rightarrow> rect" where
  "enhancedRotatingCalipers hullv =
     (if length hullv < 3 then zero_rect
      else case snd (foldl (caliper_step hullv) (PInf, None) (getUniqueEdgeDirections hullv)) of
             None \<Rightarrow> zero_rect
           | Some bestRect \<Rightarrow> bestRect)"
subsection \<open>\<^verbatim>\<open>fromPoints\<close>\<close>
text \<open>
  The flat array holds one point in three consecutive numbers. Both loops step through
  it three at a time. A trailing incomplete triple reads \<^verbatim>\<open>undefined\<close> in the source
  and turns the sums into NaN; the model covers the arrays whose length is a multiple
  of three and stops the loops at such a remainder.
\<close>
fun centroid_loop :: "real list \<Rightarrow> real \<times> real \<Rightarrow> real \<times> real" where
  "centroid_loop (px # py # pz # rest) (centroidX, centroidZ) =
     centroid_loop rest (centroidX + px, centroidZ + pz)"
| "centroid_loop _ acc = acc"
text \<open>
  The key \<^verbatim>\<open>`${Math.round(rx/epsilon)},${Math.round(rz/epsilon)}`\<close> names the pair of
  the two integers, so the \<^verbatim>\<open>Map\<close> is a map on pairs of integers.
\<close>
definition point_key :: "real \<Rightarrow> real \<Rightarrow> int \<times> int" where
  "point_key rx rz = (math_round (rx / (1 / 10 ^ 6)), math_round (rz / (1 / 10 ^ 6)))"
record prep =
  uniquePoints :: "int \<times> int \<rightharpoonup> vec2"
  points2D :: "vec2 list"
  minY :: xreal
  maxY :: xreal
definition prep_init :: prep where
  "prep_init = \<lparr>uniquePoints = Map.empty, points2D = [], minY = PInf, maxY = MInf\<rparr>"
text \<open>
  The deduplication loop. The vector \<^verbatim>\<open>tempVec\<close> that the source also accumulates here
  is never read and is left out.
\<close>
fun dedup_loop :: "real list \<Rightarrow> real \<Rightarrow> real \<Rightarrow> prep \<Rightarrow> prep" where
  "dedup_loop (px # py # pz # rest) centroidX centroidZ st =
     (let rx = px - centroidX;
          y = py;
          rz = pz - centroidZ;
          key = point_key rx rz
      in if uniquePoints st key = None
         then dedup_loop rest centroidX centroidZ
                \<lparr>uniquePoints = (uniquePoints st)(key \<mapsto> Vector2 rx rz),
                 points2D = points2D st @ [Vector2 rx rz],
                 minY = xmin (minY st) y,
                 maxY = xmax (maxY st) y\<rparr>
         else dedup_loop rest centroidX centroidZ st)"
| "dedup_loop _ centroidX centroidZ st = st"
definition centroid :: "real list \<Rightarrow> real \<times> real" where
  "centroid points =
     (let (sx, sz) = centroid_loop points (0, 0)
      in (sx / (real (length points) / 3), sz / (real (length points) / 3)))"
definition preprocess :: "real list \<Rightarrow> prep" where
  "preprocess points =
     (let (centroidX, centroidZ) = centroid points
      in dedup_loop points centroidX centroidZ prep_init)"
text \<open>Steps 4 and 5 of \<^verbatim>\<open>fromPoints\<close>: shift the rectangle back and set the three fields.\<close>
definition reconstruct :: "rect \<Rightarrow> real \<times> real \<Rightarrow> xreal \<Rightarrow> xreal \<Rightarrow> mbr" where
  "reconstruct result0 c mn mx =
     (let result = result0\<lparr>rcenter := Vector2 (vx (rcenter result0) + fst c)
                                             (vy (rcenter result0) + snd c)\<rparr>
      in \<lparr>center = Vector3 (vx (rcenter result)) ((fin mn + fin mx) * (1 / 2)) (vy (rcenter result)),
          halfSizes = Vector3 (rwidth result * (1 / 2)) ((fin mx - fin mn) * (1 / 2))
                              (rheight result * (1 / 2)),
          rotation = makeRotationY (- rangle result)\<rparr>)"
definition fromPoints :: "real list \<Rightarrow> mbr \<Rightarrow> error + mbr" where
  "fromPoints points this =
     (if length points < 9 then Inr this
      else
        let st = preprocess points
        in if length (points2D st) < 3 then Inr this
           else case grahamScan (points2D st) of
                  Inl e \<Rightarrow> Inl e
                | Inr hullv \<Rightarrow>
                    Inr (reconstruct (enhancedRotatingCalipers hullv) (centroid points)
                                     (minY st) (maxY st)))"
subsection \<open>\<^verbatim>\<open>toBox3\<close>\<close>
definition local_corners :: "vec3 \<Rightarrow> vec3 list" where
  "local_corners h =
     [Vector3 (- v3x h) (- v3y h) (- v3z h),
      Vector3 (v3x h) (- v3y h) (- v3z h),
      Vector3 (v3x h) (v3y h) (- v3z h),
      Vector3 (- v3x h) (v3y h) (- v3z h),
      Vector3 (- v3x h) (- v3y h) (v3z h),
      Vector3 (v3x h) (- v3y h) (v3z h),
      Vector3 (v3x h) (v3y h) (v3z h),
      Vector3 (- v3x h) (v3y h) (v3z h)]"
definition toBox3 :: "mbr \<Rightarrow> box3 \<Rightarrow> box3" where
  "toBox3 this target =
     (let vertices = map (\<lambda>vertex. add3 (applyMatrix4 vertex (rotation this)) (center this))
                         (local_corners (halfSizes this))
      in setFromPoints target vertices)"
section \<open>Predicates used in the statements\<close>
text \<open>
  The deduplication loop keeps the vertical range in step with the list of kept points:
  both accumulators are still at their seeds while nothing is kept, and finite afterwards.
\<close>
definition prep_inv :: "prep \<Rightarrow> bool" where
  "prep_inv st \<longleftrightarrow>
     (if points2D st = [] then minY st = PInf \<and> maxY st = MInf
      else (\<exists>a b. minY st = Fin a \<and> maxY st = Fin b \<and> a \<le> b))"
text \<open>
  The rotation about the vertical axis by the angle \<open>theta\<close>, as it acts on a point:
  the vertical coordinate stays, the horizontal ones turn.
\<close>
definition rotate_about_y :: "real \<Rightarrow> vec3 \<Rightarrow> vec3" where
  "rotate_about_y theta v =
     Vector3 (cos theta * v3x v + sin theta * v3z v) (v3y v)
             (cos theta * v3z v - sin theta * v3x v)"
text \<open>
  The corners of an oriented box, in the words of the specification and written out in
  coordinates: the eight offsets of plus or minus the half-size along each axis, turned
  about the vertical axis by the angle \<open>theta\<close> and then moved by the centre.
\<close>
definition oriented_corners :: "vec3 \<Rightarrow> vec3 \<Rightarrow> real \<Rightarrow> vec3 list" where
  "oriented_corners c h theta =
     [Vector3 (v3x c + v3x (rotate_about_y theta (Vector3 (sx * v3x h) (sy * v3y h) (sz * v3z h))))
              (v3y c + v3y (rotate_about_y theta (Vector3 (sx * v3x h) (sy * v3y h) (sz * v3z h))))
              (v3z c + v3z (rotate_about_y theta (Vector3 (sx * v3x h) (sy * v3y h) (sz * v3z h)))).
      sx \<leftarrow> [- 1, 1], sy \<leftarrow> [- 1, 1], sz \<leftarrow> [- 1, 1]]"
text \<open>
  The edge-aligned bounding rectangle in the words of the specification: for a direction
  \<open>d\<close>, the extent of the vertices along \<open>d\<close> is the greatest projection minus the least,
  and the area is the extent along \<open>d\<close> times the extent along the perpendicular of \<open>d\<close>.
\<close>
definition extent :: "vec2 list \<Rightarrow> vec2 \<Rightarrow> real" where
  "extent ps d = Max ((\<lambda>p. dot p d) ` set ps) - Min ((\<lambda>p. dot p d) ` set ps)"
definition perp :: "vec2 \<Rightarrow> vec2" where
  "perp d = Vector2 (- vy d) (vx d)"
definition aligned_area :: "vec2 list \<Rightarrow> vec2 \<Rightarrow> real" where
  "aligned_area ps d = extent ps d * extent ps (perp d)"
text \<open>The normalized direction of the edge from vertex \<open>i\<close> to the next vertex, cyclically.\<close>
definition edge_direction :: "vec2 list \<Rightarrow> nat \<Rightarrow> vec2" where
  "edge_direction hullv i =
     (let p1 = hullv ! i; p2 = hullv ! ((i + 1) mod length hullv)
      in normalize (Vector2 (vx p2 - vx p1) (vy p2 - vy p1)))"
text \<open>
  A strictly convex polygon in counter-clockwise order: every three cyclically
  consecutive vertices make a strict left turn.
\<close>
definition strictly_convex_ccw :: "vec2 list \<Rightarrow> bool" where
  "strictly_convex_ccw hs =
     list_all (\<lambda>i. 0 < crossProduct (hs ! i) (hs ! ((i + 1) mod length hs))
                                     (hs ! ((i + 2) mod length hs)))
              [0..<length hs]"
text \<open>
  What the search loop holds after a list of directions: the index \<open>k\<close> of the first
  direction whose candidate rectangle has the least area.
\<close>
definition first_least :: "vec2 list \<Rightarrow> vec2 list \<Rightarrow> nat \<Rightarrow> bool" where
  "first_least hullv dirs k \<longleftrightarrow>
     k < length dirs \<and>
     (\<forall>j < length dirs. rarea (candidate hullv (dirs ! k)) \<le> rarea (candidate hullv (dirs ! j))) \<and>
     (\<forall>j < k. rarea (candidate hullv (dirs ! k)) < rarea (candidate hullv (dirs ! j)))"
text \<open>The second coordinates of all triples of the flat array, kept or not.\<close>
fun heights :: "real list \<Rightarrow> real list" where
  "heights (px # py # pz # rest) = py # heights rest"
| "heights _ = []"
text \<open>
  The states an instance can be in when it is only changed by \<^verbatim>\<open>fromPoints\<close> after its
  construction, on arrays that are too short for the first guard or hold whole triples.
\<close>
inductive reachable :: "mbr \<Rightarrow> bool" where
  fresh: "reachable new_mbr"
| call: "reachable this \<Longrightarrow> length points < 9 \<or> length points mod 3 = 0 \<Longrightarrow>
         fromPoints points this = Inr box \<Longrightarrow> reachable box"
section \<open>Basic facts about the loops\<close>
lemma pop_while_stop:
  "\<not> (length stack \<ge> 2 \<and>
      crossProduct (stack ! (length stack - 2)) (stack ! (length stack - 1)) p \<le> 0) \<Longrightarrow>
   pop_while stack p = stack"
  by (subst pop_while.simps) auto
lemma pop_while_pop:
  "length stack \<ge> 2 \<and>
      crossProduct (stack ! (length stack - 2)) (stack ! (length stack - 1)) p \<le> 0 \<Longrightarrow>
   pop_while stack p = pop_while (butlast stack) p"
  by (subst pop_while.simps) auto
lemma length_insort_cmp: "length (insort_cmp c a xs) = Suc (length xs)"
  by (induction xs) auto
lemma length_sort_cmp: "length (sort_cmp c xs) = length xs"
  unfolding sort_cmp_def by (induction xs) (auto simp: length_insort_cmp)
lemma filter_index_eq: "filter_index ps k = take k ps @ drop (Suc k) ps"
proof (induction ps arbitrary: k rule: rev_induct)
  case Nil
  then show ?case by (simp add: filter_index_def)
next
  case (snoc x xs)
  have z: "zip (xs @ [x]) [0..<length (xs @ [x])] = zip xs [0..<length xs] @ [(x, length xs)]"
    by simp
  show ?case
  proof (cases "k < length xs")
    case True
    then show ?thesis using snoc[of k] unfolding filter_index_def z by simp
  next
    case False
    then show ?thesis using snoc[of k] unfolding filter_index_def z
      by (cases "k = length xs") auto
  qed
qed
lemma length_filter_index: "k < length ps \<Longrightarrow> length (filter_index ps k) = length ps - 1"
  by (simp add: filter_index_eq)
lemma find_bottom_index:
  "snd (find_bottom ps i (bp, bi)) = bi \<or>
   (i \<le> snd (find_bottom ps i (bp, bi)) \<and> snd (find_bottom ps i (bp, bi)) < i + length ps)"
  by (induction ps i "(bp, bi)" arbitrary: bp bi rule: find_bottom.induct) (auto; fastforce)+
lemma find_bottom_index_lt:
  assumes "ps \<noteq> []"
  shows "snd (find_bottom (tl ps) 1 (ps ! 0, 0)) < length ps"
  using find_bottom_index[of "tl ps" 1 "ps ! 0" 0] assms
  by (cases ps) auto
lemma grahamScan_total: "\<exists>h. grahamScan ps = Inr h"
proof (cases "length ps < 3")
  case True
  then show ?thesis by (simp add: grahamScan_def)
next
  case False
  obtain bp bi where fb: "find_bottom (tl ps) 1 (ps ! 0, 0) = (bp, bi)"
    by (cases "find_bottom (tl ps) 1 (ps ! 0, 0)")
  have "ps \<noteq> []" using False by auto
  then have "bi < length ps" using find_bottom_index_lt[of ps] fb by auto
  then have "length (sort_cmp (compare_angle bp) (filter_index ps bi)) = length ps - 1"
    by (simp add: length_sort_cmp length_filter_index)
  with False obtain s1 rest where "sort_cmp (compare_angle bp) (filter_index ps bi) = s1 # rest"
    by (cases "sort_cmp (compare_angle bp) (filter_index ps bi)") auto
  then show ?thesis using False fb by (simp add: grahamScan_def)
qed
lemma fromPoints_degenerate:
  "length points < 9 \<or> length (points2D (preprocess points)) < 3 \<Longrightarrow>
   fromPoints points this = Inr this"
  by (auto simp: fromPoints_def Let_def)
lemma fromPoints_success:
  assumes "9 \<le> length points" and "3 \<le> length (points2D (preprocess points))"
  shows "\<exists>hullv. grahamScan (points2D (preprocess points)) = Inr hullv \<and>
           fromPoints points this =
             Inr (reconstruct (enhancedRotatingCalipers hullv) (centroid points)
                    (minY (preprocess points)) (maxY (preprocess points)))"
proof -
  obtain hullv where "grahamScan (points2D (preprocess points)) = Inr hullv"
    using grahamScan_total by blast
  then show ?thesis using assms by (simp add: fromPoints_def Let_def)
qed
lemma dedup_loop_inv: "prep_inv st \<Longrightarrow> prep_inv (dedup_loop ps cx cz st)"
proof (induction ps cx cz st rule: dedup_loop.induct)
  case (1 px py pz rest cx cz st)
  show ?case
  proof (cases "uniquePoints st (point_key (px - cx) (pz - cz)) = None")
    case True
    have "prep_inv \<lparr>uniquePoints = (uniquePoints st)(point_key (px - cx) (pz - cz) \<mapsto> Vector2 (px - cx) (pz - cz)),
                 points2D = points2D st @ [Vector2 (px - cx) (pz - cz)],
                 minY = xmin (minY st) py,
                 maxY = xmax (maxY st) py\<rparr>"
      using "1.prems" by (auto simp: prep_inv_def split: if_splits)
    then show ?thesis using True "1.IH"(1)[OF refl refl refl refl True] by (auto simp: Let_def)
  next
    case False
    then show ?thesis using "1.IH"(2)[OF refl refl refl refl False "1.prems"] by (auto simp: Let_def)
  qed
qed simp_all
lemma dedup_loop_Fin:
  assumes "points2D (preprocess points) \<noteq> []"
  shows "\<exists>a b. minY (preprocess points) = Fin a \<and> maxY (preprocess points) = Fin b \<and> a \<le> b"
proof -
  have "prep_inv prep_init" by (simp add: prep_inv_def prep_init_def)
  then have "prep_inv (preprocess points)"
    by (simp add: preprocess_def dedup_loop_inv split: prod.splits)
  then show ?thesis using assms by (simp add: prep_inv_def)
qed
section \<open>The axis-aligned box of the corners\<close>
lemma foldl_xmin_Fin: "foldl xmin (Fin a) xs = Fin (Min (insert a (set xs)))"
proof (induction xs arbitrary: a)
  case Nil
  then show ?case by simp
next
  case (Cons x xs)
  have "Min (insert (min a x) (set xs)) = Min (insert a (insert x (set xs)))"
    by (cases "set xs = {}") (auto simp: min.assoc)
  then show ?case using Cons by simp
qed
lemma foldl_xmax_Fin: "foldl xmax (Fin a) xs = Fin (Max (insert a (set xs)))"
proof (induction xs arbitrary: a)
  case Nil
  then show ?case by simp
next
  case (Cons x xs)
  have "Max (insert (max a x) (set xs)) = Max (insert a (insert x (set xs)))"
    by (cases "set xs = {}") (auto simp: max.assoc)
  then show ?case using Cons by simp
qed
lemma foldl_xmin_PInf: "xs \<noteq> [] \<Longrightarrow> foldl xmin PInf xs = Fin (Min (set xs))"
  by (cases xs) (simp_all add: foldl_xmin_Fin)
lemma foldl_xmax_MInf: "xs \<noteq> [] \<Longrightarrow> foldl xmax MInf xs = Fin (Max (set xs))"
  by (cases xs) (simp_all add: foldl_xmax_Fin)
lemma foldl_expandByPoint:
  "foldl expandByPoint \<lparr>bmin = (x0, y0, z0), bmax = (x1, y1, z1)\<rparr> ps =
     \<lparr>bmin = (foldl xmin x0 (map v3x ps), foldl xmin y0 (map v3y ps), foldl xmin z0 (map v3z ps)),
      bmax = (foldl xmax x1 (map v3x ps), foldl xmax y1 (map v3y ps), foldl xmax z1 (map v3z ps))\<rparr>"
  by (induction ps arbitrary: x0 y0 z0 x1 y1 z1) (simp_all add: expandByPoint_def)
lemma setFromPoints_minmax:
  assumes "ps \<noteq> []"
  shows "setFromPoints b ps =
     \<lparr>bmin = (Fin (Min (v3x ` set ps)), Fin (Min (v3y ` set ps)), Fin (Min (v3z ` set ps))),
      bmax = (Fin (Max (v3x ` set ps)), Fin (Max (v3y ` set ps)), Fin (Max (v3z ` set ps)))\<rparr>"
proof -
  have "makeEmpty b = \<lparr>bmin = (PInf, PInf, PInf), bmax = (MInf, MInf, MInf)\<rparr>"
    by (simp add: makeEmpty_def)
  then show ?thesis using assms
    by (simp add: setFromPoints_def foldl_expandByPoint foldl_xmin_PInf foldl_xmax_MInf)
qed
lemma makeRotationY_apply: "applyMatrix4 v (makeRotationY theta) = rotate_about_y theta v"
  by (simp add: applyMatrix4_def makeRotationY_def rotate_about_y_def Let_def)
lemma vertices_oriented:
  assumes "rotation this = makeRotationY theta"
  shows "set (map (\<lambda>vertex. add3 (applyMatrix4 vertex (rotation this)) (center this))
                  (local_corners (halfSizes this))) =
         set (oriented_corners (center this) (halfSizes this) theta)"
  unfolding assms local_corners_def oriented_corners_def makeRotationY_apply add3_def
  by (simp add: insert_commute add.commute)
lemma identity4_rotation: "identity4 = makeRotationY 0"
  by (simp add: identity4_def makeRotationY_def)
lemma reachable_rotation: "reachable box \<Longrightarrow> \<exists>theta. rotation box = makeRotationY theta"
proof (induction rule: reachable.induct)
  case fresh
  show ?case using identity4_rotation by (auto simp: new_mbr_def)
next
  case (call this points box)
  show ?case
  proof (cases "length points < 9 \<or> length (points2D (preprocess points)) < 3")
    case True
    then have "box = this" using call.hyps(3) by (simp add: fromPoints_degenerate)
    then show ?thesis using call.IH by simp
  next
    case False
    then have g: "9 \<le> length points" "3 \<le> length (points2D (preprocess points))" by auto
    from fromPoints_success[OF g, of this] call.hyps(3)
    show ?thesis by (auto simp: reconstruct_def Let_def)
  qed
qed
text \<open>
  Claim C7. The rotation of an oriented box is a rotation about the vertical axis, by
  an angle \<open>theta\<close>; this is so for every instance that has only been changed by
  \<^verbatim>\<open>fromPoints\<close> since its construction. For such a state \<^verbatim>\<open>toBox3\<close> takes eight
  points, which are the eight corners of the oriented box: the offsets of plus or minus
  the half-size along each axis, turned about the vertical axis by \<open>theta\<close> and moved by
  the centre. It returns the axis-aligned box whose minimum and maximum are, coordinate
  by coordinate, the least and the greatest value over these corners; the box handed
  in as \<^verbatim>\<open>target\<close> does not matter.
\<close>
theorem toBox3_corner_bounds:
  "(reachable this \<longrightarrow> (\<exists>theta. rotation this = makeRotationY theta)) \<and>
   (rotation this = makeRotationY theta \<longrightarrow>
      set (map (\<lambda>vertex. add3 (applyMatrix4 vertex (rotation this)) (center this))
               (local_corners (halfSizes this))) =
        set (oriented_corners (center this) (halfSizes this) theta) \<and>
      length (oriented_corners (center this) (halfSizes this) theta) = 8 \<and>
      toBox3 this target =
        \<lparr>bmin = (Fin (Min (v3x ` set (oriented_corners (center this) (halfSizes this) theta))),
                 Fin (Min (v3y ` set (oriented_corners (center this) (halfSizes this) theta))),
                 Fin (Min (v3z ` set (oriented_corners (center this) (halfSizes this) theta)))),
         bmax = (Fin (Max (v3x ` set (oriented_corners (center this) (halfSizes this) theta))),
                 Fin (Max (v3y ` set (oriented_corners (center this) (halfSizes this) theta))),
                 Fin (Max (v3z ` set (oriented_corners (center this) (halfSizes this) theta))))\<rparr>)"
proof (intro conjI impI)
  assume "reachable this"
  then show "\<exists>theta. rotation this = makeRotationY theta" by (rule reachable_rotation)
next
  assume r: "rotation this = makeRotationY theta"
  let ?vs = "map (\<lambda>vertex. add3 (applyMatrix4 vertex (rotation this)) (center this))
                 (local_corners (halfSizes this))"
  let ?cs = "oriented_corners (center this) (halfSizes this) theta"
  show vc: "set ?vs = set ?cs" by (rule vertices_oriented[OF r])
  show "length ?cs = 8" by (simp add: oriented_corners_def)
  have ne: "?vs \<noteq> []" by (simp add: local_corners_def)
  have "toBox3 this target = setFromPoints target ?vs" by (simp add: toBox3_def)
  also have "\<dots> = \<lparr>bmin = (Fin (Min (v3x ` set ?vs)), Fin (Min (v3y ` set ?vs)), Fin (Min (v3z ` set ?vs))),
      bmax = (Fin (Max (v3x ` set ?vs)), Fin (Max (v3y ` set ?vs)), Fin (Max (v3z ` set ?vs)))\<rparr>"
    by (rule setFromPoints_minmax[OF ne])
  finally show "toBox3 this target =
        \<lparr>bmin = (Fin (Min (v3x ` set ?cs)), Fin (Min (v3y ` set ?cs)), Fin (Min (v3z ` set ?cs))),
         bmax = (Fin (Max (v3x ` set ?cs)), Fin (Max (v3y ` set ?cs)), Fin (Max (v3z ` set ?cs)))\<rparr>"
    unfolding vc .
qed
lemma oriented_corners_quarter:
  "set (oriented_corners (Vector3 1 2 3) (Vector3 1 2 3) (pi / 2)) =
     {Vector3 (- 2) 0 4, Vector3 4 0 4, Vector3 (- 2) 4 4, Vector3 4 4 4,
      Vector3 (- 2) 0 2, Vector3 4 0 2, Vector3 (- 2) 4 2, Vector3 4 4 2}"
  by (simp add: oriented_corners_def rotate_about_y_def insert_commute)
theorem toBox3_corner_bounds_witness:
  "reachable new_mbr \<and>
   rotation new_mbr = makeRotationY 0 \<and>
   rotation \<lparr>center = Vector3 1 2 3, halfSizes = Vector3 1 2 3, rotation = makeRotationY (pi / 2)\<rparr>
     = makeRotationY (pi / 2) \<and>
   toBox3 \<lparr>center = Vector3 1 2 3, halfSizes = Vector3 1 2 3, rotation = makeRotationY (pi / 2)\<rparr>
     \<lparr>bmin = (PInf, PInf, PInf), bmax = (MInf, MInf, MInf)\<rparr> =
     \<lparr>bmin = (Fin (- 2), Fin 0, Fin 2), bmax = (Fin 4, Fin 4, Fin 4)\<rparr>"
proof -
  let ?B = "\<lparr>center = Vector3 1 2 3, halfSizes = Vector3 1 2 3, rotation = makeRotationY (pi / 2)\<rparr>"
  let ?T = "\<lparr>bmin = (PInf, PInf, PInf), bmax = (MInf, MInf, MInf)\<rparr>"
  have h: "rotation ?B = makeRotationY (pi / 2)" by simp
  have f: "rotation new_mbr = makeRotationY 0" by (simp add: new_mbr_def identity4_rotation)
  from toBox3_corner_bounds[of ?B "pi / 2" ?T] h
  have "toBox3 ?B ?T =
        \<lparr>bmin = (Fin (Min (v3x ` set (oriented_corners (Vector3 1 2 3) (Vector3 1 2 3) (pi / 2)))),
                 Fin (Min (v3y ` set (oriented_corners (Vector3 1 2 3) (Vector3 1 2 3) (pi / 2)))),
                 Fin (Min (v3z ` set (oriented_corners (Vector3 1 2 3) (Vector3 1 2 3) (pi / 2))))),
         bmax = (Fin (Max (v3x ` set (oriented_corners (Vector3 1 2 3) (Vector3 1 2 3) (pi / 2)))),
                 Fin (Max (v3y ` set (oriented_corners (Vector3 1 2 3) (Vector3 1 2 3) (pi / 2)))),
                 Fin (Max (v3z ` set (oriented_corners (Vector3 1 2 3) (Vector3 1 2 3) (pi / 2)))))\<rparr>"
    by simp
  then have "toBox3 ?B ?T = \<lparr>bmin = (Fin (- 2), Fin 0, Fin 2), bmax = (Fin 4, Fin 4, Fin 4)\<rparr>"
    unfolding oriented_corners_quarter by simp
  then show ?thesis using h f reachable.fresh by blast
qed
text \<open>
  Claim C5. For every array of whole triples that passes both guards (at least nine
  numbers, at least three points kept by the deduplication), \<^verbatim>\<open>fromPoints\<close> sets the centre to the
  centre of the winning rectangle shifted back by the centroid, with the midpoint of
  the vertical range in between, the half-sizes to half the width, half the vertical
  range and half the height, and the rotation to the rotation about the vertical axis
  by minus the angle of the rectangle.
\<close>
theorem fromPoints_reconstruction:
  assumes "9 \<le> length points" and "3 \<le> length (points2D (preprocess points))"
    and "length points mod 3 = 0"
  shows "\<exists>hullv mn mx.
           grahamScan (points2D (preprocess points)) = Inr hullv \<and>
           minY (preprocess points) = Fin mn \<and> maxY (preprocess points) = Fin mx \<and>
           (let cand = enhancedRotatingCalipers hullv; (cx, cz) = centroid points
            in fromPoints points this =
                 Inr \<lparr>center = Vector3 (vx (rcenter cand) + cx) ((mn + mx) / 2) (vy (rcenter cand) + cz),
                      halfSizes = Vector3 (rwidth cand / 2) ((mx - mn) / 2) (rheight cand / 2),
                      rotation = makeRotationY (- rangle cand)\<rparr> \<and>
               (\<forall>v. applyMatrix4 v (makeRotationY (- rangle cand)) = rotate_about_y (- rangle cand) v))"
proof -
  obtain hullv where h: "grahamScan (points2D (preprocess points)) = Inr hullv"
    using grahamScan_total by blast
  have "points2D (preprocess points) \<noteq> []" using assms(2) by auto
  then obtain mn mx where m: "minY (preprocess points) = Fin mn" "maxY (preprocess points) = Fin mx"
    using dedup_loop_Fin by blast
  have "fromPoints points this =
          Inr (reconstruct (enhancedRotatingCalipers hullv) (centroid points) (Fin mn) (Fin mx))"
    using assms(1,2) h m by (simp add: fromPoints_def Let_def)
  then show ?thesis
    using h m by (simp add: reconstruct_def Let_def makeRotationY_apply split: prod.splits)
qed
section \<open>A worked input: a right triangle with sides 3, 4 and 5\<close>
lemma sqrt_9: "sqrt 9 = 3" by (rule real_sqrt_unique) auto
lemma sqrt_16: "sqrt 16 = 4" by (rule real_sqrt_unique) auto
lemma sqrt_25: "sqrt 25 = 5" by (rule real_sqrt_unique) auto
lemma preprocess_tri:
  "preprocess [0, 0, 0, 3, 2, 0, 0, 1, 4] =
     \<lparr>uniquePoints = [(- 1000000, - 1333333) \<mapsto> Vector2 (- 1) (- (4 / 3)),
                      (2000000, - 1333333) \<mapsto> Vector2 2 (- (4 / 3)),
                      (- 1000000, 2666667) \<mapsto> Vector2 (- 1) (8 / 3)],
      points2D = [Vector2 (- 1) (- (4 / 3)), Vector2 2 (- (4 / 3)), Vector2 (- 1) (8 / 3)],
      minY = Fin 0, maxY = Fin 2\<rparr>"
  by (simp add: preprocess_def centroid_def prep_init_def point_key_def math_round_def Let_def)
lemma compare_angle_tri:
  "compare_angle (Vector2 (- 1) (- (4 / 3))) (Vector2 2 (- (4 / 3))) (Vector2 (- 1) (8 / 3))
     = - (pi / 2)"
  using pi_ge_two by (simp add: compare_angle_def atan2_def Let_def)
lemma grahamScan_tri:
  "grahamScan [Vector2 (- 1) (- (4 / 3)), Vector2 2 (- (4 / 3)), Vector2 (- 1) (8 / 3)] =
     Inr [Vector2 (- 1) (- (4 / 3)), Vector2 2 (- (4 / 3)), Vector2 (- 1) (8 / 3)]"
  using pi_ge_two compare_angle_tri
  by (simp add: grahamScan_def filter_index_def sort_cmp_def scan_step_def pop_while_stop
        pop_while_pop crossProduct_def upt_rec)
lemma directions_tri:
  "getUniqueEdgeDirections [Vector2 (- 1) (- (4 / 3)), Vector2 2 (- (4 / 3)), Vector2 (- 1) (8 / 3)]
     = [Vector2 1 0, Vector2 (- (3 / 5)) (4 / 5), Vector2 0 (- 1)]"
  by (simp add: getUniqueEdgeDirections_def edge_step_def normalize_def vlength_def dot_def
        sqrt_9 sqrt_16 sqrt_25 Let_def upt_rec)
lemma candidate_tri_1:
  "candidate [Vector2 (- 1) (- (4 / 3)), Vector2 2 (- (4 / 3)), Vector2 (- 1) (8 / 3)] (Vector2 1 0)
     = \<lparr>rcenter = Vector2 (1 / 2) (2 / 3), rwidth = 3, rheight = 4, rangle = 0\<rparr>"
  by (simp add: candidate_def getExtremeProjections_def dot_def atan2_def Let_def)
lemma candidate_tri_2:
  "rarea (candidate [Vector2 (- 1) (- (4 / 3)), Vector2 2 (- (4 / 3)), Vector2 (- 1) (8 / 3)]
            (Vector2 (- (3 / 5)) (4 / 5))) = 12"
  by (simp add: rarea_def candidate_def getExtremeProjections_def dot_def Let_def)
lemma candidate_tri_3:
  "rarea (candidate [Vector2 (- 1) (- (4 / 3)), Vector2 2 (- (4 / 3)), Vector2 (- 1) (8 / 3)]
            (Vector2 0 (- 1))) = 12"
  by (simp add: rarea_def candidate_def getExtremeProjections_def dot_def Let_def)
lemma calipers_tri:
  "enhancedRotatingCalipers
     [Vector2 (- 1) (- (4 / 3)), Vector2 2 (- (4 / 3)), Vector2 (- 1) (8 / 3)]
     = \<lparr>rcenter = Vector2 (1 / 2) (2 / 3), rwidth = 3, rheight = 4, rangle = 0\<rparr>"
proof -
  have a1: "rarea \<lparr>rcenter = Vector2 (1 / 2) (2 / 3), rwidth = 3, rheight = 4, rangle = 0\<rparr> = 12"
    by (simp add: rarea_def)
  show ?thesis
    using candidate_tri_1 candidate_tri_2 candidate_tri_3 directions_tri a1
    by (simp add: enhancedRotatingCalipers_def caliper_step_def Let_def)
qed
lemma fromPoints_tri:
  "fromPoints [0, 0, 0, 3, 2, 0, 0, 1, 4] this =
     Inr \<lparr>center = Vector3 (3 / 2) 1 2, halfSizes = Vector3 (3 / 2) 1 2, rotation = identity4\<rparr>"
  using grahamScan_tri calipers_tri preprocess_tri
  by (simp add: fromPoints_def reconstruct_def centroid_def makeRotationY_def identity4_def Let_def)
lemma preprocess_same:
  "preprocess [1, 2, 3, 1, 2, 3, 1, 2, 3] =
     \<lparr>uniquePoints = [(0, 0) \<mapsto> Vector2 0 0], points2D = [Vector2 0 0],
      minY = Fin 2, maxY = Fin 2\<rparr>"
  by (simp add: preprocess_def centroid_def prep_init_def point_key_def math_round_def Let_def)
theorem fromPoints_reconstruction_witness:
  "9 \<le> length [0, 0, 0, 3, 2, 0, 0, 1, 4 :: real] \<and>
   3 \<le> length (points2D (preprocess [0, 0, 0, 3, 2, 0, 0, 1, 4])) \<and>
   length [0, 0, 0, 3, 2, 0, 0, 1, 4 :: real] mod 3 = 0 \<and>
   fromPoints [0, 0, 0, 3, 2, 0, 0, 1, 4] new_mbr =
     Inr \<lparr>center = Vector3 (1 / 2 + 1) ((0 + 2) / 2) (2 / 3 + 4 / 3),
          halfSizes = Vector3 (3 / 2) ((2 - 0) / 2) (4 / 2),
          rotation = makeRotationY (- 0)\<rparr>"
proof -
  have h1: "9 \<le> length [0, 0, 0, 3, 2, 0, 0, 1, 4 :: real]" by simp
  have h2: "3 \<le> length (points2D (preprocess [0, 0, 0, 3, 2, 0, 0, 1, 4]))"
    using preprocess_tri by simp
  have h3: "length [0, 0, 0, 3, 2, 0, 0, 1, 4 :: real] mod 3 = 0" by simp
  from fromPoints_reconstruction[OF h1 h2 h3, of new_mbr]
  show ?thesis
    using h1 h2 grahamScan_tri calipers_tri preprocess_tri
    by (auto simp: centroid_def Let_def)
qed
text \<open>
  Claim C10. On the two early returns of \<^verbatim>\<open>fromPoints\<close> (fewer than nine numbers, or
  whole triples with fewer than three points kept by the deduplication) the receiver comes back with its
  three fields as they were: a fresh instance stays the zero box, and an instance that
  holds the box of an earlier call keeps that box.
\<close>
theorem fromPoints_early_return_keeps_fields:
  assumes "length points < 9 \<or>
           (length points mod 3 = 0 \<and> length (points2D (preprocess points)) < 3)"
  shows "fromPoints points this = Inr this \<and>
         fromPoints points new_mbr =
           Inr \<lparr>center = Vector3 0 0 0, halfSizes = Vector3 0 0 0, rotation = identity4\<rparr> \<and>
         (fromPoints earlier this = Inr box \<longrightarrow> fromPoints points box = Inr box)"
proof -
  have "length points < 9 \<or> length (points2D (preprocess points)) < 3"
    using assms by blast
  then show ?thesis by (simp add: fromPoints_degenerate new_mbr_def[symmetric])
qed
theorem fromPoints_early_return_keeps_fields_witness:
  "(length [1, 2, 3, 1, 2, 3, 1, 2, 3 :: real] < 9 \<or>
    (length [1, 2, 3, 1, 2, 3, 1, 2, 3 :: real] mod 3 = 0 \<and>
     length (points2D (preprocess [1, 2, 3, 1, 2, 3, 1, 2, 3])) < 3)) \<and>
   fromPoints [0, 0, 0, 3, 2, 0, 0, 1, 4] new_mbr =
     Inr \<lparr>center = Vector3 (3 / 2) 1 2, halfSizes = Vector3 (3 / 2) 1 2, rotation = identity4\<rparr> \<and>
   fromPoints [1, 2, 3, 1, 2, 3, 1, 2, 3]
     \<lparr>center = Vector3 (3 / 2) 1 2, halfSizes = Vector3 (3 / 2) 1 2, rotation = identity4\<rparr> =
     Inr \<lparr>center = Vector3 (3 / 2) 1 2, halfSizes = Vector3 (3 / 2) 1 2, rotation = identity4\<rparr>"
proof -
  have h: "length [1, 2, 3, 1, 2, 3, 1, 2, 3 :: real] < 9 \<or>
           (length [1, 2, 3, 1, 2, 3, 1, 2, 3 :: real] mod 3 = 0 \<and>
            length (points2D (preprocess [1, 2, 3, 1, 2, 3, 1, 2, 3])) < 3)"
    using preprocess_same by simp
  from fromPoints_early_return_keeps_fields[OF h, of new_mbr "[0, 0, 0, 3, 2, 0, 0, 1, 4]"
        "\<lparr>center = Vector3 (3 / 2) 1 2, halfSizes = Vector3 (3 / 2) 1 2, rotation = identity4\<rparr>"]
  show ?thesis using h fromPoints_tri[of new_mbr] by blast
qed
text \<open>
  Claim C6, as the code has it. \<^verbatim>\<open>fromPoints\<close> returns a value for every receiver and
  every input, an array that is too short for the first guard or holds whole triples,
  and never throws. On an input with fewer than nine numbers, or with fewer than three
  points kept by the deduplication, the value is the receiver as it was before the
  call; it is the zero-sized box when the receiver is freshly constructed.
\<close>
theorem fromPoints_never_throws:
  assumes "length points < 9 \<or> length points mod 3 = 0"
  shows "(\<exists>r. fromPoints points this = Inr r) \<and>
         (length points < 9 \<or> length (points2D (preprocess points)) < 3 \<longrightarrow>
            fromPoints points this = Inr this \<and>
            fromPoints points new_mbr = Inr new_mbr \<and> halfSizes new_mbr = Vector3 0 0 0)"
proof -
  obtain h where "grahamScan (points2D (preprocess points)) = Inr h"
    using grahamScan_total by blast
  then have "\<exists>r. fromPoints points this = Inr r"
    by (simp add: fromPoints_def Let_def)
  then show ?thesis by (simp add: fromPoints_degenerate new_mbr_def)
qed
theorem fromPoints_never_throws_witness:
  "(length [1, 2, 3, 1, 2, 3, 1, 2, 3 :: real] < 9 \<or>
    length [1, 2, 3, 1, 2, 3, 1, 2, 3 :: real] mod 3 = 0) \<and>
   (length [1, 2, 3, 1, 2, 3, 1, 2, 3 :: real] < 9 \<or>
    length (points2D (preprocess [1, 2, 3, 1, 2, 3, 1, 2, 3])) < 3) \<and>
   fromPoints [1, 2, 3, 1, 2, 3, 1, 2, 3] new_mbr = Inr new_mbr \<and>
   halfSizes new_mbr = Vector3 0 0 0"
proof -
  have h0: "length [1, 2, 3, 1, 2, 3, 1, 2, 3 :: real] < 9 \<or>
            length [1, 2, 3, 1, 2, 3, 1, 2, 3 :: real] mod 3 = 0"
    by simp
  have h: "length [1, 2, 3, 1, 2, 3, 1, 2, 3 :: real] < 9 \<or>
           length (points2D (preprocess [1, 2, 3, 1, 2, 3, 1, 2, 3])) < 3"
    using preprocess_same by simp
  from fromPoints_never_throws[OF h0, of new_mbr]
  show ?thesis using h0 h by blast
qed
text \<open>
  The claim as it is written fails on a receiver that is used again: after a first call
  on the triangle, a call on the empty array returns the box of the triangle, whose
  half-sizes are not zero.
\<close>
theorem fromPoints_zero_sized_counterexample:
  "fromPoints [0, 0, 0, 3, 2, 0, 0, 1, 4] new_mbr =
     Inr \<lparr>center = Vector3 (3 / 2) 1 2, halfSizes = Vector3 (3 / 2) 1 2, rotation = identity4\<rparr> \<and>
   length ([] :: real list) < 9 \<and>
   fromPoints []
     \<lparr>center = Vector3 (3 / 2) 1 2, halfSizes = Vector3 (3 / 2) 1 2, rotation = identity4\<rparr> =
     Inr \<lparr>center = Vector3 (3 / 2) 1 2, halfSizes = Vector3 (3 / 2) 1 2, rotation = identity4\<rparr> \<and>
   halfSizes \<lparr>center = Vector3 (3 / 2) 1 2, halfSizes = Vector3 (3 / 2) 1 2, rotation = identity4\<rparr>
     \<noteq> Vector3 0 0 0"
  using fromPoints_tri[of new_mbr] by (simp add: fromPoints_def)
section \<open>The rotating-calipers search\<close>
lemma edge_step_mono: "length directions \<le> length (edge_step hullv directions i)"
  by (simp add: edge_step_def Let_def)
lemma foldl_edge_step_nonempty:
  "directions \<noteq> [] \<Longrightarrow> foldl (edge_step hullv) directions is \<noteq> []"
proof (induction "is" arbitrary: directions)
  case Nil
  then show ?case by simp
next
  case (Cons i "is")
  have "edge_step hullv directions i \<noteq> []"
    using Cons.prems edge_step_mono[of directions hullv i] by (cases directions) auto
  then show ?case using Cons.IH by simp
qed
lemma getUniqueEdgeDirections_nonempty:
  assumes "hullv \<noteq> []"
  shows "getUniqueEdgeDirections hullv \<noteq> []"
proof -
  have "[0..<length hullv] = 0 # [1..<length hullv]"
    using assms by (simp add: upt_rec)
  moreover have "edge_step hullv [] 0 \<noteq> []" by (simp add: edge_step_def Let_def)
  ultimately show ?thesis
    by (simp add: getUniqueEdgeDirections_def foldl_edge_step_nonempty)
qed
lemma caliper_loop:
  "dirs \<noteq> [] \<Longrightarrow>
   \<exists>k. first_least hullv dirs k \<and>
       foldl (caliper_step hullv) (PInf, None) dirs =
         (Fin (rarea (candidate hullv (dirs ! k))), Some (candidate hullv (dirs ! k)))"
proof (induction dirs rule: rev_induct)
  case Nil
  then show ?case by simp
next
  case (snoc d ds)
  show ?case
  proof (cases "ds = []")
    case True
    then show ?thesis
      by (auto simp: first_least_def caliper_step_def Let_def)
  next
    case False
    then obtain k where k: "first_least hullv ds k"
      and acc: "foldl (caliper_step hullv) (PInf, None) ds =
         (Fin (rarea (candidate hullv (ds ! k))), Some (candidate hullv (ds ! k)))"
      using snoc.IH by blast
    have kl: "k < length ds" using k by (simp add: first_least_def)
    show ?thesis
    proof (cases "rarea (candidate hullv d) < rarea (candidate hullv (ds ! k))")
      case True
      have "first_least hullv (ds @ [d]) (length ds)"
        unfolding first_least_def
      proof (intro conjI allI impI)
        show "length ds < length (ds @ [d])" by simp
      next
        fix j assume "j < length (ds @ [d])"
        then consider "j < length ds" | "j = length ds" by fastforce
        then show "rarea (candidate hullv ((ds @ [d]) ! length ds))
                     \<le> rarea (candidate hullv ((ds @ [d]) ! j))"
        proof cases
          case 1
          then have "rarea (candidate hullv (ds ! k)) \<le> rarea (candidate hullv (ds ! j))"
            using k by (simp add: first_least_def)
          then show ?thesis using True 1 by (simp add: nth_append)
        next
          case 2
          then show ?thesis by simp
        qed
      next
        fix j assume j: "j < length ds"
        then have "rarea (candidate hullv (ds ! k)) \<le> rarea (candidate hullv (ds ! j))"
          using k by (simp add: first_least_def)
        then show "rarea (candidate hullv ((ds @ [d]) ! length ds))
                     < rarea (candidate hullv ((ds @ [d]) ! j))"
          using True j by (simp add: nth_append)
      qed
      moreover have "foldl (caliper_step hullv) (PInf, None) (ds @ [d]) =
          (Fin (rarea (candidate hullv d)), Some (candidate hullv d))"
        using True acc by (simp add: caliper_step_def Let_def)
      ultimately show ?thesis by (metis nth_append_length)
    next
      case False
      have "first_least hullv (ds @ [d]) k"
        unfolding first_least_def
      proof (intro conjI allI impI)
        show "k < length (ds @ [d])" using kl by simp
      next
        fix j assume "j < length (ds @ [d])"
        then consider "j < length ds" | "j = length ds" by fastforce
        then show "rarea (candidate hullv ((ds @ [d]) ! k))
                     \<le> rarea (candidate hullv ((ds @ [d]) ! j))"
        proof cases
          case 1
          then show ?thesis using k kl by (simp add: first_least_def nth_append)
        next
          case 2
          then show ?thesis using False kl by (simp add: nth_append)
        qed
      next
        fix j assume "j < k"
        then show "rarea (candidate hullv ((ds @ [d]) ! k))
                     < rarea (candidate hullv ((ds @ [d]) ! j))"
          using k kl by (simp add: first_least_def nth_append)
      qed
      moreover have "foldl (caliper_step hullv) (PInf, None) (ds @ [d]) =
          (Fin (rarea (candidate hullv (ds ! k))), Some (candidate hullv (ds ! k)))"
        using False acc by (simp add: caliper_step_def Let_def)
      ultimately show ?thesis using kl by (metis nth_append)
    qed
  qed
qed
lemma foldl_projections:
  "foldl (\<lambda>(minProj, maxProj) point.
              let proj = dot point direction in (xmin minProj proj, xmax maxProj proj))
         (a, b) points =
   (foldl xmin a (map (\<lambda>p. dot p direction) points),
    foldl xmax b (map (\<lambda>p. dot p direction) points))"
  by (induction points arbitrary: a b) (simp_all add: Let_def)
lemma getExtremeProjections_Fin:
  assumes "points \<noteq> []"
  shows "getExtremeProjections points direction =
           (Fin (Min ((\<lambda>p. dot p direction) ` set points)),
            Fin (Max ((\<lambda>p. dot p direction) ` set points)))"
  using assms
  by (simp add: getExtremeProjections_def foldl_projections foldl_xmin_PInf foldl_xmax_MInf)
lemma candidate_size:
  assumes "hullv \<noteq> []"
  shows "rwidth (candidate hullv d) = extent hullv d"
    and "rheight (candidate hullv d) = extent hullv (perp d)"
    and "rarea (candidate hullv d) = aligned_area hullv d"
  using assms
  by (simp_all add: candidate_def getExtremeProjections_Fin extent_def perp_def rarea_def
        aligned_area_def Let_def)
lemma edge_step_subset:
  "set (edge_step hullv directions i) \<subseteq> insert (edge_direction hullv i) (set directions)"
  by (auto simp: edge_step_def edge_direction_def Let_def)
lemma foldl_edge_step_subset:
  "set (foldl (edge_step hullv) directions is) \<subseteq> set directions \<union> edge_direction hullv ` set is"
proof (induction "is" arbitrary: directions)
  case Nil
  then show ?case by simp
next
  case (Cons i "is")
  show ?case using Cons.IH[of "edge_step hullv directions i"] edge_step_subset[of hullv directions i]
    by auto
qed
lemma directions_are_edges:
  "set (getUniqueEdgeDirections hullv) \<subseteq> edge_direction hullv ` {..<length hullv}"
  using foldl_edge_step_subset[of hullv "[]" "[0..<length hullv]"]
  by (auto simp: getUniqueEdgeDirections_def)
subsection \<open>The triangle with a fourth point above its first corner\<close>
lemma preprocess_stacked:
  "preprocess [0, 0, 0, 3, 2, 0, 0, 1, 4, 0, 7, 0] =
     \<lparr>uniquePoints = [(- 750000, - 1000000) \<mapsto> Vector2 (- (3 / 4)) (- 1),
                      (2250000, - 1000000) \<mapsto> Vector2 (9 / 4) (- 1),
                      (- 750000, 3000000) \<mapsto> Vector2 (- (3 / 4)) 3],
      points2D = [Vector2 (- (3 / 4)) (- 1), Vector2 (9 / 4) (- 1), Vector2 (- (3 / 4)) 3],
      minY = Fin 0, maxY = Fin 2\<rparr>"
  by (simp add: preprocess_def centroid_def prep_init_def point_key_def math_round_def Let_def)
lemma compare_angle_stacked:
  "compare_angle (Vector2 (- (3 / 4)) (- 1)) (Vector2 (9 / 4) (- 1)) (Vector2 (- (3 / 4)) 3)
     = - (pi / 2)"
  using pi_ge_two by (simp add: compare_angle_def atan2_def Let_def)
lemma grahamScan_stacked:
  "grahamScan [Vector2 (- (3 / 4)) (- 1), Vector2 (9 / 4) (- 1), Vector2 (- (3 / 4)) 3] =
     Inr [Vector2 (- (3 / 4)) (- 1), Vector2 (9 / 4) (- 1), Vector2 (- (3 / 4)) 3]"
  using pi_ge_two compare_angle_stacked
  by (simp add: grahamScan_def filter_index_def sort_cmp_def scan_step_def pop_while_stop
        pop_while_pop crossProduct_def upt_rec)
lemma directions_stacked:
  "getUniqueEdgeDirections [Vector2 (- (3 / 4)) (- 1), Vector2 (9 / 4) (- 1), Vector2 (- (3 / 4)) 3]
     = [Vector2 1 0, Vector2 (- (3 / 5)) (4 / 5), Vector2 0 (- 1)]"
  by (simp add: getUniqueEdgeDirections_def edge_step_def normalize_def vlength_def dot_def
        sqrt_9 sqrt_16 sqrt_25 Let_def upt_rec)
lemma candidate_stacked_1:
  "candidate [Vector2 (- (3 / 4)) (- 1), Vector2 (9 / 4) (- 1), Vector2 (- (3 / 4)) 3] (Vector2 1 0)
     = \<lparr>rcenter = Vector2 (3 / 4) 1, rwidth = 3, rheight = 4, rangle = 0\<rparr>"
  by (simp add: candidate_def getExtremeProjections_def dot_def atan2_def Let_def)
lemma candidate_stacked_2:
  "rarea (candidate [Vector2 (- (3 / 4)) (- 1), Vector2 (9 / 4) (- 1), Vector2 (- (3 / 4)) 3]
            (Vector2 (- (3 / 5)) (4 / 5))) = 12"
  by (simp add: rarea_def candidate_def getExtremeProjections_def dot_def Let_def)
lemma candidate_stacked_3:
  "rarea (candidate [Vector2 (- (3 / 4)) (- 1), Vector2 (9 / 4) (- 1), Vector2 (- (3 / 4)) 3]
            (Vector2 0 (- 1))) = 12"
  by (simp add: rarea_def candidate_def getExtremeProjections_def dot_def Let_def)
lemma calipers_stacked:
  "enhancedRotatingCalipers
     [Vector2 (- (3 / 4)) (- 1), Vector2 (9 / 4) (- 1), Vector2 (- (3 / 4)) 3]
     = \<lparr>rcenter = Vector2 (3 / 4) 1, rwidth = 3, rheight = 4, rangle = 0\<rparr>"
proof -
  have a1: "rarea \<lparr>rcenter = Vector2 (3 / 4) 1, rwidth = 3, rheight = 4, rangle = 0\<rparr> = 12"
    by (simp add: rarea_def)
  show ?thesis
    using candidate_stacked_1 candidate_stacked_2 candidate_stacked_3 directions_stacked a1
    by (simp add: enhancedRotatingCalipers_def caliper_step_def Let_def)
qed
text \<open>
  Claim C3 at the input \<open>(0, 0, 0), (3, 2, 0), (0, 1, 4), (0, 7, 0)\<close>. The fourth point
  stands above the first one, so its key is taken and the loop skips it together with
  its height: the vertical range stays \<open>[0, 2]\<close> although the greatest height of the
  input is 7, and the box ends at height 2, below the fourth point.
\<close>
theorem vertical_range_skips_duplicate_keys:
  "minY (preprocess [0, 0, 0, 3, 2, 0, 0, 1, 4, 0, 7, 0]) = Fin 0 \<and>
   maxY (preprocess [0, 0, 0, 3, 2, 0, 0, 1, 4, 0, 7, 0]) = Fin 2 \<and>
   Min (set (heights [0, 0, 0, 3, 2, 0, 0, 1, 4, 0, 7, 0])) = 0 \<and>
   Max (set (heights [0, 0, 0, 3, 2, 0, 0, 1, 4, 0, 7, 0])) = 7 \<and>
   fromPoints [0, 0, 0, 3, 2, 0, 0, 1, 4, 0, 7, 0] new_mbr =
     Inr \<lparr>center = Vector3 (3 / 2) 1 2, halfSizes = Vector3 (3 / 2) 1 2, rotation = identity4\<rparr>"
proof -
  have "fromPoints [0, 0, 0, 3, 2, 0, 0, 1, 4, 0, 7, 0] new_mbr =
     Inr \<lparr>center = Vector3 (3 / 2) 1 2, halfSizes = Vector3 (3 / 2) 1 2, rotation = identity4\<rparr>"
    using grahamScan_stacked calipers_stacked preprocess_stacked
    by (simp add: fromPoints_def reconstruct_def centroid_def makeRotationY_def identity4_def Let_def)
  then show ?thesis using preprocess_stacked by simp
qed
subsection \<open>The triangle with a fourth point on its bottom edge\<close>
















section \<open>The angle function\<close>
section \<open>The convex hull\<close>
lemma strictly_convex_ccw_iff:
  "strictly_convex_ccw hs \<longleftrightarrow>
     (\<forall>i < length hs. 0 < crossProduct (hs ! i) (hs ! ((i + 1) mod length hs))
                                        (hs ! ((i + 2) mod length hs)))"
  by (auto simp: strictly_convex_ccw_def list_all_iff)
subsection \<open>The returned vertices reach as far as every input point\<close>
subsection \<open>Points on one ray from the pivot\<close>
subsection \<open>The scan over the sorted points\<close>
subsection \<open>The polygon that the scan returns\<close>

subsection \<open>Three points that are almost on one line\<close>
subsection \<open>A quadrilateral with two almost parallel edges\<close>
section \<open>Repeated calls\<close>


section \<open>Extents of a strictly convex polygon\<close>
lemma extent_ge_diff:
  assumes "a \<in> set ps" and "b \<in> set ps"
  shows "dot b d - dot a d \<le> extent ps d"
proof -
  have "dot b d \<le> Max ((\<lambda>p. dot p d) ` set ps)" using assms(2) by (intro Max_ge) simp_all
  moreover have "Min ((\<lambda>p. dot p d) ` set ps) \<le> dot a d" using assms(1) by (intro Min_le) simp_all
  ultimately show ?thesis by (simp add: extent_def)
qed
lemma calipers_is_candidate:
  assumes "3 \<le> length hullv"
  shows "\<exists>d \<in> set (getUniqueEdgeDirections hullv). enhancedRotatingCalipers hullv = candidate hullv d"
proof -
  have "hullv \<noteq> []" using assms by auto
  then have "getUniqueEdgeDirections hullv \<noteq> []" by (rule getUniqueEdgeDirections_nonempty)
  from caliper_loop[OF this, of hullv] obtain k where
    "first_least hullv (getUniqueEdgeDirections hullv) k"
    "foldl (caliper_step hullv) (PInf, None) (getUniqueEdgeDirections hullv) =
         (Fin (rarea (candidate hullv (getUniqueEdgeDirections hullv ! k))),
          Some (candidate hullv (getUniqueEdgeDirections hullv ! k)))"
    by blast
  then show ?thesis using assms
    by (auto simp: enhancedRotatingCalipers_def first_least_def)
qed
text \<open>
  Along the direction of an edge and across it, a strict left turn at the edge gives
  the vertices a positive extent.
\<close>
lemma edge_extents_positive:
  assumes "a \<in> set hs" and "b \<in> set hs" and "c \<in> set hs"
    and "0 < crossProduct a b c"
  shows "0 < extent hs (normalize (Vector2 (vx b - vx a) (vy b - vy a)))"
    and "0 < extent hs (perp (normalize (Vector2 (vx b - vx a) (vy b - vy a))))"
proof -
  define ex ey where "ex = vx b - vx a" and "ey = vy b - vy a"
  define L where "L = sqrt (ex * ex + ey * ey)"
  have nz: "ex \<noteq> 0 \<or> ey \<noteq> 0"
    using assms(4) by (auto simp: crossProduct_def ex_def ey_def)
  have L: "0 < L" using nz by (auto simp: L_def sum_squares_gt_zero_iff)
  have LL: "L * L = ex * ex + ey * ey"
    unfolding L_def by (simp add: sum_squares_ge_zero[simplified])
  have d: "normalize (Vector2 ex ey) = Vector2 (ex * (1 / L)) (ey * (1 / L))"
    using L by (simp add: normalize_def vlength_def L_def Let_def)
  have "dot b (normalize (Vector2 ex ey)) - dot a (normalize (Vector2 ex ey)) = (ex * ex + ey * ey) / L"
    unfolding d using L by (simp add: dot_def ex_def ey_def field_simps)
  also have "\<dots> = L" using L unfolding LL[symmetric] by simp
  finally have "0 < dot b (normalize (Vector2 ex ey)) - dot a (normalize (Vector2 ex ey))"
    using L by simp
  then show "0 < extent hs (normalize (Vector2 (vx b - vx a) (vy b - vy a)))"
    using extent_ge_diff[OF assms(1,2), of "normalize (Vector2 ex ey)"]
    by (simp add: ex_def ey_def)
  have "dot c (perp (normalize (Vector2 ex ey))) - dot a (perp (normalize (Vector2 ex ey)))
          = crossProduct a b c / L"
    unfolding d using L by (simp add: dot_def perp_def crossProduct_def ex_def ey_def field_simps)
  then have "0 < dot c (perp (normalize (Vector2 ex ey))) - dot a (perp (normalize (Vector2 ex ey)))"
    using L assms(4) by simp
  then show "0 < extent hs (perp (normalize (Vector2 (vx b - vx a) (vy b - vy a))))"
    using extent_ge_diff[OF assms(1,3), of "perp (normalize (Vector2 ex ey))"]
    by (simp add: ex_def ey_def)
qed
lemma calipers_positive:
  assumes "3 \<le> length hs" and "strictly_convex_ccw hs"
  shows "0 < rwidth (enhancedRotatingCalipers hs) \<and> 0 < rheight (enhancedRotatingCalipers hs)"
proof -
  have ne: "hs \<noteq> []" using assms(1) by auto
  from calipers_is_candidate[OF assms(1)] obtain d where
    d: "d \<in> set (getUniqueEdgeDirections hs)" "enhancedRotatingCalipers hs = candidate hs d"
    by blast
  then obtain i where i: "i < length hs" "d = edge_direction hs i"
    using directions_are_edges[of hs] by auto
  define a b c where "a = hs ! i" and "b = hs ! ((i + 1) mod length hs)"
    and "c = hs ! ((i + 2) mod length hs)"
  have mem: "a \<in> set hs" "b \<in> set hs" "c \<in> set hs"
    using i(1) ne by (simp_all add: a_def b_def c_def)
  have "0 < crossProduct a b c"
    using assms(2) i(1) by (simp add: strictly_convex_ccw_iff a_def b_def c_def)
  from edge_extents_positive[OF mem this]
  have "0 < extent hs d" "0 < extent hs (perp d)"
    by (simp_all add: i(2) edge_direction_def a_def b_def Let_def)
  then show ?thesis using d(2) candidate_size(1,2)[OF ne] by simp
qed
section \<open>The deduplication\<close>
section \<open>The box and the points it is built from\<close>

subsection \<open>A sliver: three points that are almost on one line\<close>
section \<open>The signs of the half-sizes\<close>


end
